theory Spec2Isabelle
  imports Main "HOL-Library.Multiset"
begin

section \<open>Data model of the shipyard view (WerftView.tsx)\<close>

text \<open>
  The view reads three things from the shipyard store: the queue of build orders, the
  inventory and the hangar capacity. The catalog \<open>SHIP_BLUEPRINTS\<close> is a constant of
  another module, so every function below takes it as its first argument. The numbers
  of the source are integral counts and millisecond timestamps; they are modelled as
  \<open>int\<close>.
\<close>

datatype OrderStatus = Queued | Building | Completed | Cancelled

record ShipBuildOrder =
  order_id :: string
  blueprintId :: string
  quantity :: int
  status :: OrderStatus
  startTime :: int
  endTime :: int

record ShipBlueprint =
  bp_id :: string
  bp_name :: string
  hangarSlots :: int

text \<open>\<open>SHIP_BLUEPRINTS.find((entry) => entry.id === blueprintId)\<close>: the first entry
  with that id, or \<open>undefined\<close>.\<close>

definition find_blueprint :: "ShipBlueprint list \<Rightarrow> string \<Rightarrow> ShipBlueprint option" where
  "find_blueprint SHIP_BLUEPRINTS wanted =
     List.find (\<lambda>entry. bp_id entry = wanted) SHIP_BLUEPRINTS"

subsection \<open>hangarUsage\<close>

text \<open>The inventory object is read through \<open>Object.entries\<close>, that is, as the list of
  its (blueprint id, amount) pairs. Both sums are \<open>reduce\<close> calls starting at 0.\<close>

definition used_step :: "ShipBlueprint list \<Rightarrow> int \<Rightarrow> string \<times> int \<Rightarrow> int" where
  "used_step SHIP_BLUEPRINTS acc e =
     (case find_blueprint SHIP_BLUEPRINTS (fst e) of
        None \<Rightarrow> acc
      | Some blueprint \<Rightarrow> acc + hangarSlots blueprint * snd e)"

definition reserved_step :: "ShipBlueprint list \<Rightarrow> int \<Rightarrow> ShipBuildOrder \<Rightarrow> int" where
  "reserved_step SHIP_BLUEPRINTS acc order =
     (if status order = Completed then acc
      else (case find_blueprint SHIP_BLUEPRINTS (blueprintId order) of
              None \<Rightarrow> acc
            | Some blueprint \<Rightarrow> acc + hangarSlots blueprint * quantity order))"

record HangarUsage =
  used :: int
  reserved :: int
  free :: int

definition hangarUsage ::
  "ShipBlueprint list \<Rightarrow> (string \<times> int) list \<Rightarrow> ShipBuildOrder list \<Rightarrow> int \<Rightarrow> HangarUsage" where
  "hangarUsage SHIP_BLUEPRINTS ents q cap =
     (let u = foldl (used_step SHIP_BLUEPRINTS) 0 ents;
          r = foldl (reserved_step SHIP_BLUEPRINTS) 0 q
      in \<lparr> used = u, reserved = r, free = max (cap - u - r) 0 \<rparr>)"

text \<open>A one-entry catalog and an order constructor, used for the concrete evaluations.\<close>

definition sample_catalog :: "ShipBlueprint list" where
  "sample_catalog = [\<lparr> bp_id = ''scout'', bp_name = ''Scout'', hangarSlots = 2 \<rparr>]"

definition sample_order :: "string \<Rightarrow> OrderStatus \<Rightarrow> int \<Rightarrow> int \<Rightarrow> ShipBuildOrder" where
  "sample_order bid st t0 t1 =
     \<lparr> order_id = ''o1'', blueprintId = bid, quantity = 3, status = st,
       startTime = t0, endTime = t1 \<rparr>"

subsection \<open>queueEntries\<close>

text \<open>
  \<open>[...queue].sort((a, b) => a.startTime - b.startTime).map(...)\<close>. The spread copies the
  queue into a fresh array, \<open>sort\<close> reorders that copy in place, and \<open>map\<close> builds the
  entries. Arrays of orders live in a store addressed by their index, so that the
  in-place sort is visible in the model. \<open>Array.prototype.sort\<close> is stable; it is
  modelled as a stable insertion sort driven by the comparator.
\<close>

definition compareStartTime :: "ShipBuildOrder \<Rightarrow> ShipBuildOrder \<Rightarrow> int" where
  "compareStartTime a b = startTime a - startTime b"

fun insert_sorted :: "('a \<Rightarrow> 'a \<Rightarrow> int) \<Rightarrow> 'a \<Rightarrow> 'a list \<Rightarrow> 'a list" where
  "insert_sorted cmp x [] = [x]"
| "insert_sorted cmp x (y # ys) =
     (if cmp x y \<le> 0 then x # y # ys else y # insert_sorted cmp x ys)"

definition array_sort :: "('a \<Rightarrow> 'a \<Rightarrow> int) \<Rightarrow> 'a list \<Rightarrow> 'a list" where
  "array_sort cmp xs = foldr (insert_sorted cmp) xs []"

type_synonym array_store = "ShipBuildOrder list list"

definition array_spread :: "nat \<Rightarrow> array_store \<Rightarrow> nat \<times> array_store" where
  "array_spread a h = (length h, h @ [h ! a])"

definition sort_in_place ::
  "(ShipBuildOrder \<Rightarrow> ShipBuildOrder \<Rightarrow> int) \<Rightarrow> nat \<Rightarrow> array_store \<Rightarrow> array_store" where
  "sort_in_place cmp a h = h[a := array_sort cmp (h ! a)]"

text \<open>An entry is the order's own fields (the spread \<open>...order\<close>) plus three derived ones.\<close>

record QueueEntry =
  entry_order :: ShipBuildOrder
  blueprintName :: string
  remaining :: int
  entry_hangarSlots :: int

definition toEntry :: "ShipBlueprint list \<Rightarrow> int \<Rightarrow> ShipBuildOrder \<Rightarrow> QueueEntry" where
  "toEntry SHIP_BLUEPRINTS now order =
     (let blueprint = find_blueprint SHIP_BLUEPRINTS (blueprintId order);
          rem = (if status order = Completed then 0 else max (endTime order - now) 0)
      in \<lparr> entry_order = order,
           blueprintName = (case blueprint of None \<Rightarrow> blueprintId order | Some b \<Rightarrow> bp_name b),
           remaining = rem,
           entry_hangarSlots = (case blueprint of None \<Rightarrow> 0 | Some b \<Rightarrow> hangarSlots b) \<rparr>)"

text \<open>\<open>now\<close> is the value \<open>Date.now()\<close> returns when the entries are computed; \<open>qaddr\<close> is
  the address of the store's queue array. The result is the entry list and the store
  after the call.\<close>

definition queueEntries ::
  "ShipBlueprint list \<Rightarrow> int \<Rightarrow> nat \<Rightarrow> array_store \<Rightarrow> QueueEntry list \<times> array_store" where
  "queueEntries SHIP_BLUEPRINTS now qaddr h =
     (let (c, h1) = array_spread qaddr h;
          h2 = sort_in_place compareStartTime c h1
      in (map (toEntry SHIP_BLUEPRINTS now) (h2 ! c), h2))"

subsection \<open>Quantity field\<close>

text \<open>\<open>useState<Record<string, number>>({})\<close> with the setter used only by
  \<open>handleQuantityChange\<close>; a blueprint card reads \<open>quantities[ship.id] ?? 1\<close>.\<close>

type_synonym quantities = "string \<rightharpoonup> int"

definition handleQuantityChange :: "string \<Rightarrow> int \<Rightarrow> quantities \<Rightarrow> quantities" where
  "handleQuantityChange bid v prev = prev(bid \<mapsto> max 1 (min 10 v))"

definition card_quantity :: "quantities \<Rightarrow> string \<Rightarrow> int" where
  "card_quantity qs ship_id = (case qs ship_id of None \<Rightarrow> 1 | Some v \<Rightarrow> v)"

definition apply_edits :: "(string \<times> int) list \<Rightarrow> quantities" where
  "apply_edits edits = foldl (\<lambda>qs e. handleQuantityChange (fst e) (snd e) qs) Map.empty edits"

subsection \<open>renderOrderActions\<close>

text \<open>The rendered element is either \<open>null\<close> or the one button whose click handler
  calls \<open>cancelOrder(order.id)\<close>.\<close>

datatype StoreAction = CancelOrder string

datatype Element = Button StoreAction

definition renderOrderActions :: "ShipBuildOrder \<Rightarrow> Element option" where
  "renderOrderActions order =
     (if status order \<noteq> Queued then None
      else Some (Button (CancelOrder (order_id order))))"

text \<open>The order list of the view renders \<open>renderOrderActions(order)\<close> once per entry.\<close>

definition rendered_actions :: "QueueEntry list \<Rightarrow> Element list" where
  "rendered_actions entries = List.map_filter (\<lambda>e. renderOrderActions (entry_order e)) entries"

section \<open>The heartbeat hook (useGameTick.ts)\<close>

subsection \<open>The interval callback\<close>

text \<open>
  The three store actions belong to other modules and are parameters acting on the
  stores' state. The world also holds the clock (the value the k-th call of
  \<open>Date.now()\<close> returns), the number of clock reads made so far and the trace of store
  calls with their arguments.
\<close>

datatype StoreCall = GameTick | AdvanceMissions int | AdvanceShipyard int

record 's TickWorld =
  clock :: "nat \<Rightarrow> int"
  clock_reads :: nat
  stores :: 's
  calls :: "StoreCall list"

definition Date_now :: "'s TickWorld \<Rightarrow> int \<times> 's TickWorld" where
  "Date_now w = (clock w (clock_reads w), w\<lparr> clock_reads := Suc (clock_reads w) \<rparr>)"

definition call_gameTick :: "('s \<Rightarrow> 's) \<Rightarrow> 's TickWorld \<Rightarrow> 's TickWorld" where
  "call_gameTick gameTick w =
     w\<lparr> stores := gameTick (stores w), calls := calls w @ [GameTick] \<rparr>"

definition call_advanceMissions :: "(int \<Rightarrow> 's \<Rightarrow> 's) \<Rightarrow> int \<Rightarrow> 's TickWorld \<Rightarrow> 's TickWorld" where
  "call_advanceMissions advanceMissions t w =
     w\<lparr> stores := advanceMissions t (stores w), calls := calls w @ [AdvanceMissions t] \<rparr>"

definition call_advanceShipyard :: "(int \<Rightarrow> 's \<Rightarrow> 's) \<Rightarrow> int \<Rightarrow> 's TickWorld \<Rightarrow> 's TickWorld" where
  "call_advanceShipyard advanceShipyard t w =
     w\<lparr> stores := advanceShipyard t (stores w), calls := calls w @ [AdvanceShipyard t] \<rparr>"

definition interval_callback ::
  "('s \<Rightarrow> 's) \<Rightarrow> (int \<Rightarrow> 's \<Rightarrow> 's) \<Rightarrow> (int \<Rightarrow> 's \<Rightarrow> 's) \<Rightarrow> 's TickWorld \<Rightarrow> 's TickWorld" where
  "interval_callback gameTick advanceMissions advanceShipyard w =
     (let (now, w1) = Date_now w;
          w2 = call_gameTick gameTick w1;
          w3 = call_advanceMissions advanceMissions now w2
      in call_advanceShipyard advanceShipyard now w3)"

subsection \<open>The effect and its cleanup\<close>

text \<open>
  The timer table of the runtime: the ids of the running intervals and the next id
  \<open>setInterval\<close> hands out. The effect registers one interval and returns the cleanup
  closure, which is determined by the id it captured.
\<close>

record TimerTable =
  active :: "nat set"
  next_id :: nat

definition setInterval :: "TimerTable \<Rightarrow> nat \<times> TimerTable" where
  "setInterval t = (next_id t, t\<lparr> active := insert (next_id t) (active t), next_id := Suc (next_id t) \<rparr>)"

definition clearInterval :: "nat \<Rightarrow> TimerTable \<Rightarrow> TimerTable" where
  "clearInterval intervalId t = t\<lparr> active := active t - {intervalId} \<rparr>"

definition useGameTick_effect :: "TimerTable \<Rightarrow> nat \<times> TimerTable" where
  "useGameTick_effect t = (let (intervalId, t') = setInterval t in (intervalId, t'))"

definition useGameTick_cleanup :: "nat \<Rightarrow> TimerTable \<Rightarrow> TimerTable" where
  "useGameTick_cleanup intervalId t = clearInterval intervalId t"

text \<open>
  The life of one hook instance, as the framework drives it: the effect runs on mount,
  the cleanup followed by the effect runs when a dependency changes, and the cleanup
  runs on unmount. \<open>cleanup\<close> holds the id captured by the pending cleanup closure while
  the instance is mounted; \<open>registered\<close> collects every id this instance ever obtained.
\<close>

record HookInstance =
  timers :: TimerTable
  cleanup :: "nat option"
  registered :: "nat set"

datatype Lifecycle = Mount | DepsChanged | Unmount

definition run_effect :: "HookInstance \<Rightarrow> HookInstance" where
  "run_effect s =
     (let (intervalId, t') = useGameTick_effect (timers s)
      in s\<lparr> timers := t', cleanup := Some intervalId,
            registered := insert intervalId (registered s) \<rparr>)"

definition run_cleanup :: "HookInstance \<Rightarrow> HookInstance" where
  "run_cleanup s =
     (case cleanup s of
        None \<Rightarrow> s
      | Some intervalId \<Rightarrow> s\<lparr> timers := useGameTick_cleanup intervalId (timers s), cleanup := None \<rparr>)"

fun lifecycle_step :: "HookInstance \<Rightarrow> Lifecycle \<Rightarrow> HookInstance" where
  "lifecycle_step s Mount = (if cleanup s = None then run_effect s else s)"
| "lifecycle_step s DepsChanged = (if cleanup s = None then s else run_effect (run_cleanup s))"
| "lifecycle_step s Unmount = run_cleanup s"

definition run_lifecycle :: "Lifecycle list \<Rightarrow> HookInstance \<Rightarrow> HookInstance" where
  "run_lifecycle evs s = foldl lifecycle_step s evs"

definition fresh_instance :: "TimerTable \<Rightarrow> HookInstance" where
  "fresh_instance t = \<lparr> timers = t, cleanup = None, registered = {} \<rparr>"

section \<open>The directory store\<close>

text \<open>
  Systems, players and profiles are opaque to \<open>refresh\<close>, so their types are
  parameters. The constants of the mock factory are gathered in one record that the
  functions take as an argument. \<open>set\<close> merges a partial state into the store, which
  is a record update here.
\<close>

record Alliance =
  alliance_id :: string
  color :: string

record ('sys, 'pl, 'prof) DirectoryState =
  systems :: "'sys list"
  players :: "'pl list"
  favorites :: "string list"
  openProfileId :: "string option"
  profiles :: "string \<rightharpoonup> 'prof"
  currentPlayerId :: string
  allianceColors :: "string \<rightharpoonup> string"
  isLoading :: bool
  isReady :: bool
  error :: "string option"

record ('sys, 'pl) DirectorySnapshot =
  snapshot_systems :: "'sys list"
  snapshot_players :: "'pl list"
  snapshot_currentPlayerId :: string
  snapshot_allianceColors :: "string \<rightharpoonup> string"

record ('sys, 'pl) DirectoryResponse =
  response_systems :: "'sys list"
  response_players :: "'pl list"
  response_currentPlayerId :: string
  response_alliances :: "Alliance list"

record ('sys, 'pl) MockFactory =
  SYSTEM_SNAPSHOT :: "'sys list"
  PLAYER_DIRECTORY :: "'pl list"
  CURRENT_PLAYER_ID :: string
  ALLIANCE_DIRECTORY :: "Alliance list"

text \<open>What a rejected fetch throws: an \<open>Error\<close> with its message, or any other value.\<close>

datatype Thrown = ErrorInstance string | OtherValue

definition buildAllianceColorMap :: "Alliance list \<Rightarrow> (string \<rightharpoonup> string)" where
  "buildAllianceColorMap alliances =
     foldl (\<lambda>acc alliance. acc(alliance_id alliance \<mapsto> color alliance)) Map.empty alliances"

definition createFallbackSnapshot :: "('sys, 'pl) MockFactory \<Rightarrow> ('sys, 'pl) DirectorySnapshot" where
  "createFallbackSnapshot mock =
     \<lparr> snapshot_systems = SYSTEM_SNAPSHOT mock,
       snapshot_players = PLAYER_DIRECTORY mock,
       snapshot_currentPlayerId = CURRENT_PLAYER_ID mock,
       snapshot_allianceColors =
         buildAllianceColorMap
           (map (\<lambda>entry. \<lparr> alliance_id = alliance_id entry, color = color entry \<rparr>)
              (ALLIANCE_DIRECTORY mock)) \<rparr>"

definition applySnapshot ::
  "('sys, 'pl) DirectorySnapshot \<Rightarrow> ('sys, 'pl, 'prof) DirectoryState
     \<Rightarrow> ('sys, 'pl, 'prof) DirectoryState" where
  "applySnapshot snapshot st =
     st\<lparr> systems := snapshot_systems snapshot,
         players := snapshot_players snapshot,
         currentPlayerId := snapshot_currentPlayerId snapshot,
         allianceColors := snapshot_allianceColors snapshot,
         isLoading := False,
         isReady := True \<rparr>"

definition mapResponseToSnapshot ::
  "('sys, 'pl) DirectorySnapshot \<Rightarrow> ('sys, 'pl) DirectorySnapshot" where
  "mapResponseToSnapshot response =
     \<lparr> snapshot_systems = snapshot_systems response,
       snapshot_players = snapshot_players response,
       snapshot_currentPlayerId = snapshot_currentPlayerId response,
       snapshot_allianceColors = snapshot_allianceColors response \<rparr>"

text \<open>
  \<open>refresh\<close>. The argument \<open>fetched\<close> is the outcome of awaiting
  \<open>fetchDirectorySnapshot()\<close>: \<open>Inl\<close> what it threw, \<open>Inr\<close> the response. The body of the
  \<open>try\<close> and the \<open>catch\<close> handler are separate functions; the result of \<open>refresh\<close> is
  \<open>Inl\<close> when the returned promise rejects and \<open>Inr\<close> the final store otherwise.
\<close>

definition refresh_try ::
  "Thrown + ('sys, 'pl) DirectoryResponse \<Rightarrow> ('sys, 'pl, 'prof) DirectoryState
     \<Rightarrow> Thrown + ('sys, 'pl, 'prof) DirectoryState" where
  "refresh_try fetched st =
     (case fetched of
        Inl thrown \<Rightarrow> Inl thrown
      | Inr response \<Rightarrow>
          Inr (applySnapshot
                 (mapResponseToSnapshot
                    \<lparr> snapshot_systems = response_systems response,
                      snapshot_players = response_players response,
                      snapshot_currentPlayerId = response_currentPlayerId response,
                      snapshot_allianceColors =
                        buildAllianceColorMap (response_alliances response) \<rparr>)
                 st))"

definition refresh_catch ::
  "('sys, 'pl) MockFactory \<Rightarrow> Thrown \<Rightarrow> ('sys, 'pl, 'prof) DirectoryState
     \<Rightarrow> ('sys, 'pl, 'prof) DirectoryState" where
  "refresh_catch mock thrown st =
     (let fallback = createFallbackSnapshot mock;
          st1 = applySnapshot fallback st
      in st1\<lparr> error :=
               Some (case thrown of
                       ErrorInstance message \<Rightarrow> message
                     | OtherValue \<Rightarrow> ''Unbekannter Fehler beim Laden des Verzeichnisses.'') \<rparr>)"

definition refresh ::
  "('sys, 'pl) MockFactory \<Rightarrow> Thrown + ('sys, 'pl) DirectoryResponse
     \<Rightarrow> ('sys, 'pl, 'prof) DirectoryState \<Rightarrow> Thrown + ('sys, 'pl, 'prof) DirectoryState" where
  "refresh mock fetched st =
     (let st0 = st\<lparr> isLoading := True, error := None \<rparr>
      in case refresh_try fetched st0 of
           Inr st1 \<Rightarrow> Inr st1
         | Inl thrown \<Rightarrow> Inr (refresh_catch mock thrown st0))"

section \<open>The order queue's advance operation\<close>










section \<open>Capacity snapshot\<close>

lemma used_fold_shift:
  "foldl (used_step cat) acc ents = acc + foldl (used_step cat) 0 ents"
proof (induction ents arbitrary: acc)
  case Nil
  show ?case by simp
next
  case (Cons e ents)
  have "foldl (used_step cat) (used_step cat acc e) ents
          = used_step cat acc e + foldl (used_step cat) 0 ents"
    by (rule Cons.IH)
  moreover have "foldl (used_step cat) (used_step cat 0 e) ents
          = used_step cat 0 e + foldl (used_step cat) 0 ents"
    by (rule Cons.IH)
  moreover have "used_step cat acc e = acc + used_step cat 0 e"
    by (simp add: used_step_def split: option.splits)
  ultimately show ?case by simp
qed

lemma reserved_fold_shift:
  "foldl (reserved_step cat) acc q = acc + foldl (reserved_step cat) 0 q"
proof (induction q arbitrary: acc)
  case Nil
  show ?case by simp
next
  case (Cons order q)
  have "foldl (reserved_step cat) (reserved_step cat acc order) q
          = reserved_step cat acc order + foldl (reserved_step cat) 0 q"
    by (rule Cons.IH)
  moreover have "foldl (reserved_step cat) (reserved_step cat 0 order) q
          = reserved_step cat 0 order + foldl (reserved_step cat) 0 q"
    by (rule Cons.IH)
  moreover have "reserved_step cat acc order = acc + reserved_step cat 0 order"
    by (simp add: reserved_step_def split: option.splits)
  ultimately show ?case by simp
qed

text \<open>What the two reductions compute: every inventory entry and every order that is
  not completed contributes the slots of its blueprint, and nothing when the catalog
  has no such blueprint.\<close>

lemma used_characterisation:
  "used (hangarUsage cat ents q cap)
     = sum_list (map (\<lambda>e. case find_blueprint cat (fst e) of
                              None \<Rightarrow> 0 | Some b \<Rightarrow> hangarSlots b * snd e) ents)"
proof -
  have "foldl (used_step cat) 0 ents
     = sum_list (map (\<lambda>e. case find_blueprint cat (fst e) of
                              None \<Rightarrow> 0 | Some b \<Rightarrow> hangarSlots b * snd e) ents)"
  proof (induction ents)
    case Nil
    show ?case by simp
  next
    case (Cons e ents)
    have "foldl (used_step cat) 0 (e # ents)
            = used_step cat 0 e + foldl (used_step cat) 0 ents"
      using used_fold_shift [of cat "used_step cat 0 e" ents] by simp
    moreover have "used_step cat 0 e
            = (case find_blueprint cat (fst e) of None \<Rightarrow> 0 | Some b \<Rightarrow> hangarSlots b * snd e)"
      by (simp add: used_step_def split: option.splits)
    ultimately show ?case
      by (simp add: Cons.IH)
  qed
  then show ?thesis by (simp add: hangarUsage_def Let_def)
qed

lemma reserved_characterisation:
  "reserved (hangarUsage cat ents q cap)
     = sum_list (map (\<lambda>order. case find_blueprint cat (blueprintId order) of
                                  None \<Rightarrow> 0 | Some b \<Rightarrow> hangarSlots b * quantity order)
                     (filter (\<lambda>order. status order \<noteq> Completed) q))"
proof -
  have "foldl (reserved_step cat) 0 q
     = sum_list (map (\<lambda>order. case find_blueprint cat (blueprintId order) of
                                  None \<Rightarrow> 0 | Some b \<Rightarrow> hangarSlots b * quantity order)
                     (filter (\<lambda>order. status order \<noteq> Completed) q))"
  proof (induction q)
    case Nil
    show ?case by simp
  next
    case (Cons order q)
    have "foldl (reserved_step cat) 0 (order # q)
            = reserved_step cat 0 order + foldl (reserved_step cat) 0 q"
      using reserved_fold_shift [of cat "reserved_step cat 0 order" q] by simp
    moreover have "reserved_step cat 0 order
            = (if status order = Completed then 0
               else case find_blueprint cat (blueprintId order) of
                      None \<Rightarrow> 0 | Some b \<Rightarrow> hangarSlots b * quantity order)"
      by (simp add: reserved_step_def split: option.splits)
    ultimately show ?case
      by (simp add: Cons.IH)
  qed
  then show ?thesis by (simp add: hangarUsage_def Let_def)
qed

text \<open>
  Claim C1. The claim says that the reserved component counts exactly the orders whose
  status is queued or building, so that a cancelled order contributes nothing. The
  reduction over the queue skips only the status \<open>completed\<close>: a cancelled order of
  three two-slot ships still reserves six slots.
\<close>

theorem cancelled_order_still_reserved:
  "reserved (hangarUsage sample_catalog [] [sample_order ''scout'' Cancelled 0 1000] 10) = 6"
  by (simp add: hangarUsage_def reserved_step_def find_blueprint_def sample_catalog_def
        sample_order_def)

text \<open>
  Claim C2, as stated: used + reserved + free equals the hangar capacity, also when
  used + reserved exceeds it. With three two-slot ships in a hangar of capacity 5 the
  sum is 6.
\<close>

theorem capacity_sum_counterexample:
  "used (hangarUsage sample_catalog [(''scout'', 3)] [] 5)
     + reserved (hangarUsage sample_catalog [(''scout'', 3)] [] 5)
     + free (hangarUsage sample_catalog [(''scout'', 3)] [] 5) \<noteq> 5"
  by (simp add: hangarUsage_def used_step_def find_blueprint_def sample_catalog_def)

text \<open>
  Claim C2, amended: free is max (hangarCapacity - used - reserved) 0, so it is never
  negative; the three components add up to the hangar capacity exactly when
  used + reserved does not exceed it, and otherwise free is 0 and the sum is
  used + reserved.
\<close>

theorem capacity_snapshot_invariant:
  "free (hangarUsage cat ents q cap)
       = max (cap - used (hangarUsage cat ents q cap) - reserved (hangarUsage cat ents q cap)) 0
   \<and> 0 \<le> free (hangarUsage cat ents q cap)
   \<and> (used (hangarUsage cat ents q cap) + reserved (hangarUsage cat ents q cap) \<le> cap \<longrightarrow>
        used (hangarUsage cat ents q cap) + reserved (hangarUsage cat ents q cap)
          + free (hangarUsage cat ents q cap) = cap)
   \<and> (cap < used (hangarUsage cat ents q cap) + reserved (hangarUsage cat ents q cap) \<longrightarrow>
        free (hangarUsage cat ents q cap) = 0)"
  by (simp add: hangarUsage_def Let_def)

text \<open>Claim C2, amended, on a hangar with room left (capacity 10, seven slots taken) and
  on an over-committed one (capacity 5, six slots taken).\<close>

theorem capacity_snapshot_invariant_witness:
  "used (hangarUsage sample_catalog [(''scout'', 1)] [sample_order ''scout'' Building 0 1000] 10)
     + reserved (hangarUsage sample_catalog [(''scout'', 1)] [sample_order ''scout'' Building 0 1000] 10)
     \<le> 10
   \<and> used (hangarUsage sample_catalog [(''scout'', 1)] [sample_order ''scout'' Building 0 1000] 10)
     + reserved (hangarUsage sample_catalog [(''scout'', 1)] [sample_order ''scout'' Building 0 1000] 10)
     + free (hangarUsage sample_catalog [(''scout'', 1)] [sample_order ''scout'' Building 0 1000] 10)
     = 10
   \<and> free (hangarUsage sample_catalog [(''scout'', 1)] [sample_order ''scout'' Building 0 1000] 10) = 2
   \<and> 5 < used (hangarUsage sample_catalog [(''scout'', 3)] [] 5)
         + reserved (hangarUsage sample_catalog [(''scout'', 3)] [] 5)
   \<and> free (hangarUsage sample_catalog [(''scout'', 3)] [] 5) = 0"
  using capacity_snapshot_invariant
    [of sample_catalog "[(''scout'', 1)]" "[sample_order ''scout'' Building 0 1000]" 10]
    capacity_snapshot_invariant [of sample_catalog "[(''scout'', 3)]" "[]" 5]
  by (simp add: hangarUsage_def used_step_def reserved_step_def find_blueprint_def
        sample_catalog_def sample_order_def)

section \<open>Missing blueprints\<close>

lemma used_step_missing:
  "find_blueprint cat (fst e) = None \<Longrightarrow> used_step cat acc e = acc"
  by (simp add: used_step_def)

lemma reserved_step_missing:
  "find_blueprint cat (blueprintId order) = None \<Longrightarrow> reserved_step cat acc order = acc"
  by (simp add: reserved_step_def)

text \<open>
  Claim C5. An inventory entry or an order whose blueprint id has no entry in the
  catalog is skipped by the capacity computation: the accumulator is unchanged, the
  snapshot is the one computed without that item, and the per-order slot count of the
  derived queue entry is 0. The computation has no failing branch.
\<close>

theorem missing_blueprint_contributes_zero:
  assumes inv_missing: "find_blueprint cat bid = None"
    and order_missing: "find_blueprint cat (blueprintId order) = None"
  shows "used_step cat acc (bid, amount) = acc
       \<and> reserved_step cat acc order = acc
       \<and> hangarUsage cat (e1 @ (bid, amount) # e2) q cap = hangarUsage cat (e1 @ e2) q cap
       \<and> hangarUsage cat ents (q1 @ order # q2) cap = hangarUsage cat ents (q1 @ q2) cap
       \<and> entry_hangarSlots (toEntry cat now order) = 0
       \<and> entry_hangarSlots (toEntry cat now order) * quantity order = 0"
proof -
  have u: "used_step cat a (bid, amount) = a" for a
    using inv_missing by (simp add: used_step_missing)
  have r: "reserved_step cat a order = a" for a
    using order_missing by (simp add: reserved_step_missing)
  have fu: "foldl (used_step cat) 0 (e1 @ (bid, amount) # e2) = foldl (used_step cat) 0 (e1 @ e2)"
    by (simp add: u)
  have fr: "foldl (reserved_step cat) 0 (q1 @ order # q2) = foldl (reserved_step cat) 0 (q1 @ q2)"
    by (simp add: r)
  have hs: "entry_hangarSlots (toEntry cat now order) = 0"
    using order_missing by (simp add: toEntry_def)
  show ?thesis
    using u r hs by (simp add: hangarUsage_def fu fr)
qed

text \<open>Claim C5, at a catalog that knows only the blueprint \<open>scout\<close>: the entry and the
  order for \<open>ghost\<close> add nothing.\<close>

theorem missing_blueprint_contributes_zero_witness:
  "find_blueprint sample_catalog ''ghost'' = None
   \<and> used (hangarUsage sample_catalog [(''scout'', 1), (''ghost'', 4)] [] 10) = 2
   \<and> reserved (hangarUsage sample_catalog []
        [sample_order ''ghost'' Building 0 1000, sample_order ''scout'' Queued 0 1000] 10) = 6
   \<and> entry_hangarSlots (toEntry sample_catalog 0 (sample_order ''ghost'' Building 0 1000)) = 0"
proof -
  have m: "find_blueprint sample_catalog ''ghost'' = None"
    by (simp add: find_blueprint_def sample_catalog_def)
  have m': "find_blueprint sample_catalog (blueprintId (sample_order ''ghost'' Building 0 1000)) = None"
    by (simp add: find_blueprint_def sample_catalog_def sample_order_def)
  note t = missing_blueprint_contributes_zero [OF m m',
      of _ 4 "[(''scout'', 1)]" "[]" "[]" 10 "[]" "[]" "[sample_order ''scout'' Queued 0 1000]" 0]
  have a: "used (hangarUsage sample_catalog [(''scout'', 1)] [] 10) = 2"
    by (simp add: hangarUsage_def used_step_def find_blueprint_def sample_catalog_def)
  have b: "reserved (hangarUsage sample_catalog [] [sample_order ''scout'' Queued 0 1000] 10) = 6"
    by (simp add: hangarUsage_def reserved_step_def find_blueprint_def sample_catalog_def
          sample_order_def)
  from t a b m show ?thesis by simp
qed

section \<open>The derived queue\<close>

lemma insert_sorted_startTime:
  "insert_sorted compareStartTime x ys = insort_key startTime x ys"
  by (induction ys) (simp_all add: compareStartTime_def)

lemma array_sort_startTime:
  "array_sort compareStartTime xs = sort_key startTime xs"
proof -
  have "insert_sorted compareStartTime = insort_key startTime"
    by (intro ext) (rule insert_sorted_startTime)
  then show ?thesis by (simp add: array_sort_def sort_key_def)
qed

lemma entry_order_toEntry: "entry_order (toEntry cat now order) = order"
  by (simp add: toEntry_def Let_def)

lemma queueEntries_fst:
  "qaddr < length h \<Longrightarrow>
     fst (queueEntries cat now qaddr h)
       = map (toEntry cat now) (array_sort compareStartTime (h ! qaddr))"
  by (simp add: queueEntries_def array_spread_def sort_in_place_def nth_append)

lemma queueEntries_snd:
  "snd (queueEntries cat now qaddr h) = h @ [array_sort compareStartTime (h ! qaddr)]"
  by (simp add: queueEntries_def array_spread_def sort_in_place_def nth_append)

text \<open>
  Claim C7, as stated: the derived queue is a pure function of the queue state. The
  computation reads the clock, and the remaining time of every order that is not
  completed depends on that reading: the same queue gives different entries at the
  clock readings 0 and 500.
\<close>

theorem queueEntries_depends_on_clock:
  "fst (queueEntries sample_catalog 0 0 [[sample_order ''scout'' Building 0 1000]])
     \<noteq> fst (queueEntries sample_catalog 500 0 [[sample_order ''scout'' Building 0 1000]])"
  by (simp add: queueEntries_def array_spread_def sort_in_place_def array_sort_def
        toEntry_def Let_def sample_order_def)

text \<open>
  Claim C7, amended: the derived queue is determined by the queue's contents, the
  catalog and the one clock reading. Its entries carry exactly the orders of the
  queue, stably sorted in ascending order of start time, and the call leaves the
  queue array (and every other array that existed before) as it was, because the sort
  runs on a fresh copy.
\<close>

theorem queueEntries_sorted_copy:
  assumes valid: "qaddr < length h"
  shows "fst (queueEntries cat now qaddr h)
           = map (toEntry cat now) (array_sort compareStartTime (h ! qaddr))
       \<and> map entry_order (fst (queueEntries cat now qaddr h)) = sort_key startTime (h ! qaddr)
       \<and> sorted (map (\<lambda>e. startTime (entry_order e)) (fst (queueEntries cat now qaddr h)))
       \<and> mset (map entry_order (fst (queueEntries cat now qaddr h))) = mset (h ! qaddr)
       \<and> snd (queueEntries cat now qaddr h) ! qaddr = h ! qaddr
       \<and> take (length h) (snd (queueEntries cat now qaddr h)) = h"
proof -
  let ?es = "fst (queueEntries cat now qaddr h)"
  have es: "?es = map (toEntry cat now) (array_sort compareStartTime (h ! qaddr))"
    using valid by (rule queueEntries_fst)
  have orders: "map entry_order ?es = sort_key startTime (h ! qaddr)"
    by (simp add: es array_sort_startTime entry_order_toEntry comp_def)
  have "map (\<lambda>e. startTime (entry_order e)) ?es = map startTime (map entry_order ?es)"
    by (simp add: comp_def)
  then have srt: "sorted (map (\<lambda>e. startTime (entry_order e)) ?es)"
    by (simp only: orders sorted_sort_key)
  have ms: "mset (map entry_order ?es) = mset (h ! qaddr)"
    by (simp only: orders mset_sort)
  have same: "snd (queueEntries cat now qaddr h) ! qaddr = h ! qaddr"
    using valid by (simp add: queueEntries_snd nth_append)
  have tk: "take (length h) (snd (queueEntries cat now qaddr h)) = h"
    by (simp add: queueEntries_snd)
  from es orders srt ms same tk show ?thesis by blast
qed

text \<open>Claim C7, amended, on a queue of two orders stored out of start-time order.\<close>

theorem queueEntries_sorted_copy_witness:
  "fst (queueEntries sample_catalog 400 0
          [[sample_order ''scout'' Building 700 1000, sample_order ''ghost'' Completed 100 300]])
     = [toEntry sample_catalog 400 (sample_order ''ghost'' Completed 100 300),
        toEntry sample_catalog 400 (sample_order ''scout'' Building 700 1000)]
   \<and> snd (queueEntries sample_catalog 400 0
          [[sample_order ''scout'' Building 700 1000, sample_order ''ghost'' Completed 100 300]]) ! 0
     = [sample_order ''scout'' Building 700 1000, sample_order ''ghost'' Completed 100 300]"
  using queueEntries_sorted_copy [of 0
      "[[sample_order ''scout'' Building 700 1000, sample_order ''ghost'' Completed 100 300]]"
      sample_catalog 400]
  by (simp add: array_sort_def compareStartTime_def sample_order_def)

section \<open>The quantity field\<close>

lemma handleQuantityChange_range:
  assumes "\<forall>k v. qs k = Some v \<longrightarrow> 1 \<le> v \<and> v \<le> 10"
  shows "\<forall>k v. handleQuantityChange b x qs k = Some v \<longrightarrow> 1 \<le> v \<and> v \<le> 10"
proof (intro allI impI)
  fix k v
  assume h: "handleQuantityChange b x qs k = Some v"
  show "1 \<le> v \<and> v \<le> 10"
  proof (cases "k = b")
    case True
    with h have "v = max 1 (min 10 x)" by (simp add: handleQuantityChange_def)
    then show ?thesis by simp
  next
    case False
    with h have "qs k = Some v" by (simp add: handleQuantityChange_def)
    with assms show ?thesis by blast
  qed
qed

lemma apply_edits_range:
  "\<forall>k v. qs k = Some v \<longrightarrow> 1 \<le> v \<and> v \<le> 10 \<Longrightarrow>
   \<forall>k v. foldl (\<lambda>qs e. handleQuantityChange (fst e) (snd e) qs) qs edits k = Some v
           \<longrightarrow> 1 \<le> v \<and> v \<le> 10"
proof (induction edits arbitrary: qs)
  case Nil
  then show ?case by simp
next
  case (Cons e edits)
  have "\<forall>k v. handleQuantityChange (fst e) (snd e) qs k = Some v \<longrightarrow> 1 \<le> v \<and> v \<le> 10"
    using Cons.prems by (rule handleQuantityChange_range)
  then have "\<forall>k v. foldl (\<lambda>qs e. handleQuantityChange (fst e) (snd e) qs)
                 (handleQuantityChange (fst e) (snd e) qs) edits k = Some v
           \<longrightarrow> 1 \<le> v \<and> v \<le> 10"
    by (rule Cons.IH)
  then show ?case by (simp only: foldl_Cons)
qed

text \<open>
  Claim C9. After any sequence of edits, starting from the empty record, the quantity
  a blueprint card shows and passes to \<open>startOrder\<close> lies between 1 and 10: every
  change stores max 1 (min 10 value), and a card without a stored value shows 1.
\<close>

theorem quantity_stays_in_range:
  "1 \<le> card_quantity (apply_edits edits) ship_id
   \<and> card_quantity (apply_edits edits) ship_id \<le> 10
   \<and> handleQuantityChange bid v prev bid = Some (max 1 (min 10 v))
   \<and> card_quantity Map.empty ship_id = 1"
proof -
  have "\<forall>k v. apply_edits edits k = Some v \<longrightarrow> 1 \<le> v \<and> v \<le> 10"
    unfolding apply_edits_def by (rule apply_edits_range) simp
  then have "1 \<le> card_quantity (apply_edits edits) ship_id
             \<and> card_quantity (apply_edits edits) ship_id \<le> 10"
    by (cases "apply_edits edits ship_id") (simp_all add: card_quantity_def)
  then show ?thesis
    by (simp add: handleQuantityChange_def card_quantity_def)
qed

section \<open>The cancel control\<close>

lemma renderOrderActions_Some:
  "renderOrderActions order = Some el \<Longrightarrow>
     status order = Queued \<and> el = Button (CancelOrder (order_id order))"
  by (auto simp: renderOrderActions_def split: if_splits)

text \<open>
  Claim C10. \<open>renderOrderActions\<close> returns null for every order that is building,
  completed or cancelled, and the cancel button for a queued order; hence every cancel
  control in the rendered order list belongs to a queued order and carries that
  order's id.
\<close>

theorem cancel_control_only_for_queued:
  "(status order = Building \<or> status order = Completed \<or> status order = Cancelled
      \<longrightarrow> renderOrderActions order = None)
   \<and> (status order = Queued
      \<longrightarrow> renderOrderActions order = Some (Button (CancelOrder (order_id order))))
   \<and> (\<forall>el \<in> set (rendered_actions entries).
        \<exists>e \<in> set entries. status (entry_order e) = Queued
           \<and> el = Button (CancelOrder (order_id (entry_order e))))"
proof -
  have "\<exists>e \<in> set entries. status (entry_order e) = Queued
           \<and> el = Button (CancelOrder (order_id (entry_order e)))"
    if "el \<in> set (rendered_actions entries)" for el
  proof -
    from that obtain e where "e \<in> set entries" "renderOrderActions (entry_order e) = Some el"
      by (auto simp: rendered_actions_def List.map_filter_def)
    then show ?thesis using renderOrderActions_Some by blast
  qed
  then show ?thesis by (auto simp: renderOrderActions_def)
qed

text \<open>Claim C10, on a building and a queued order.\<close>

theorem cancel_control_only_for_queued_witness:
  "renderOrderActions (sample_order ''scout'' Building 0 1000) = None
   \<and> renderOrderActions (sample_order ''scout'' Queued 0 1000) = Some (Button (CancelOrder ''o1''))
   \<and> rendered_actions [toEntry sample_catalog 0 (sample_order ''scout'' Building 0 1000),
                        toEntry sample_catalog 0 (sample_order ''scout'' Queued 0 1000)]
       = [Button (CancelOrder ''o1'')]"
  using cancel_control_only_for_queued [of "sample_order ''scout'' Building 0 1000" "[]"]
    cancel_control_only_for_queued [of "sample_order ''scout'' Queued 0 1000" "[]"]
  by (simp add: sample_order_def rendered_actions_def renderOrderActions_def toEntry_def Let_def)

section \<open>The heartbeat\<close>

text \<open>
  Claim C3. One firing of the interval callback reads the clock exactly once, and the
  value it read is the argument of both the mission advance and the shipyard advance,
  which run in that order after the game tick.
\<close>

theorem interval_callback_single_clock_read:
  "clock_reads (interval_callback gt am ay w) = Suc (clock_reads w)
   \<and> calls (interval_callback gt am ay w)
       = calls w @ [GameTick, AdvanceMissions (clock w (clock_reads w)),
                    AdvanceShipyard (clock w (clock_reads w))]
   \<and> stores (interval_callback gt am ay w)
       = ay (clock w (clock_reads w)) (am (clock w (clock_reads w)) (gt (stores w)))
   \<and> clock (interval_callback gt am ay w) = clock w"
  by (simp add: interval_callback_def Date_now_def call_gameTick_def
        call_advanceMissions_def call_advanceShipyard_def)

lemma hook_timer_step:
  assumes "active (timers s) \<inter> registered s = set_option (cleanup s)"
  shows "active (timers (lifecycle_step s ev)) \<inter> registered (lifecycle_step s ev)
           = set_option (cleanup (lifecycle_step s ev))"
  using assms
  by (cases ev; cases "cleanup s")
     (auto simp: run_effect_def run_cleanup_def useGameTick_effect_def useGameTick_cleanup_def
        setInterval_def clearInterval_def)

lemma hook_timer_invariant:
  assumes "active (timers s) \<inter> registered s = set_option (cleanup s)"
  shows "active (timers (run_lifecycle evs s)) \<inter> registered (run_lifecycle evs s)
           = set_option (cleanup (run_lifecycle evs s))"
  using assms unfolding run_lifecycle_def
proof (induction evs arbitrary: s)
  case Nil
  then show ?case by simp
next
  case (Cons ev evs)
  from Cons.prems have "active (timers (lifecycle_step s ev)) \<inter> registered (lifecycle_step s ev)
           = set_option (cleanup (lifecycle_step s ev))"
    by (rule hook_timer_step)
  then show ?case by (simp add: Cons.IH)
qed

lemma cleanup_after_unmount: "cleanup (run_cleanup s) = None"
  by (simp add: run_cleanup_def split: option.splits)

text \<open>
  Claim C6. At every moment of the hook instance's life the only running interval it
  has registered is the one its pending cleanup will clear; after an unmount there is
  no pending cleanup and none of its intervals is running. The cleanup clears exactly
  the interval the effect registered.
\<close>

theorem no_timer_after_unmount:
  "active (timers (run_lifecycle evs (fresh_instance t)))
       \<inter> registered (run_lifecycle evs (fresh_instance t))
     = set_option (cleanup (run_lifecycle evs (fresh_instance t)))
   \<and> cleanup (run_lifecycle (evs @ [Unmount]) (fresh_instance t)) = None
   \<and> active (timers (run_lifecycle (evs @ [Unmount]) (fresh_instance t)))
       \<inter> registered (run_lifecycle (evs @ [Unmount]) (fresh_instance t)) = {}
   \<and> fst (useGameTick_effect t)
       \<notin> active (useGameTick_cleanup (fst (useGameTick_effect t)) (snd (useGameTick_effect t)))"
proof -
  have init: "active (timers (fresh_instance t)) \<inter> registered (fresh_instance t)
                = set_option (cleanup (fresh_instance t))"
    by (simp add: fresh_instance_def)
  have inv: "active (timers (run_lifecycle es (fresh_instance t)))
               \<inter> registered (run_lifecycle es (fresh_instance t))
             = set_option (cleanup (run_lifecycle es (fresh_instance t)))" for es
    using init by (rule hook_timer_invariant)
  have um: "cleanup (run_lifecycle (evs @ [Unmount]) (fresh_instance t)) = None"
    by (simp add: run_lifecycle_def cleanup_after_unmount)
  have gone: "active (timers (run_lifecycle (evs @ [Unmount]) (fresh_instance t)))
       \<inter> registered (run_lifecycle (evs @ [Unmount]) (fresh_instance t)) = {}"
    using inv [of "evs @ [Unmount]"] um by simp
  have direct: "fst (useGameTick_effect t)
       \<notin> active (useGameTick_cleanup (fst (useGameTick_effect t)) (snd (useGameTick_effect t)))"
    by (simp add: useGameTick_effect_def useGameTick_cleanup_def setInterval_def
          clearInterval_def)
  from inv [of evs] um gone direct show ?thesis by blast
qed

text \<open>Claim C6, on a mount, a dependency change and an unmount, from an empty timer
  table.\<close>

theorem no_timer_after_unmount_witness:
  "timers (run_lifecycle [Mount] (fresh_instance \<lparr> active = {}, next_id = 0 \<rparr>))
     = \<lparr> active = {0}, next_id = 1 \<rparr>
   \<and> timers (run_lifecycle [Mount, DepsChanged] (fresh_instance \<lparr> active = {}, next_id = 0 \<rparr>))
     = \<lparr> active = {1}, next_id = 2 \<rparr>
   \<and> timers (run_lifecycle ([Mount, DepsChanged] @ [Unmount]) (fresh_instance \<lparr> active = {}, next_id = 0 \<rparr>))
     = \<lparr> active = {}, next_id = 2 \<rparr>"
  using no_timer_after_unmount [of "[Mount, DepsChanged]" "\<lparr> active = {}, next_id = 0 \<rparr>"]
  by (simp add: run_lifecycle_def fresh_instance_def run_effect_def run_cleanup_def
        useGameTick_effect_def useGameTick_cleanup_def setInterval_def clearInterval_def)

section \<open>Directory refresh\<close>

lemma refresh_total: "\<exists>st'. refresh mock fetched st = Inr st'"
  by (cases fetched) (simp_all add: refresh_def refresh_try_def)

text \<open>
  Claim C8. When the fetch fails, \<open>refresh\<close> ends with the fallback systems, players,
  current player id and alliance colours, not loading, ready, and with the error
  recorded (the thrown error's message, or the fixed text when the thrown value is not
  an error object); the other fields keep their values. Whatever the fetch does,
  \<open>refresh\<close> returns normally.
\<close>

theorem refresh_falls_back:
  "refresh mock (Inl thrown) st
     = Inr (st\<lparr> systems := SYSTEM_SNAPSHOT mock,
                players := PLAYER_DIRECTORY mock,
                currentPlayerId := CURRENT_PLAYER_ID mock,
                allianceColors := snapshot_allianceColors (createFallbackSnapshot mock),
                isLoading := False,
                isReady := True,
                error := Some (case thrown of
                                 ErrorInstance message \<Rightarrow> message
                               | OtherValue \<Rightarrow> ''Unbekannter Fehler beim Laden des Verzeichnisses.'') \<rparr>)
   \<and> (\<exists>st'. refresh mock fetched st = Inr st')"
proof -
  have "refresh mock (Inl thrown) st
     = Inr (st\<lparr> systems := SYSTEM_SNAPSHOT mock,
                players := PLAYER_DIRECTORY mock,
                currentPlayerId := CURRENT_PLAYER_ID mock,
                allianceColors := snapshot_allianceColors (createFallbackSnapshot mock),
                isLoading := False,
                isReady := True,
                error := Some (case thrown of
                                 ErrorInstance message \<Rightarrow> message
                               | OtherValue \<Rightarrow> ''Unbekannter Fehler beim Laden des Verzeichnisses.'') \<rparr>)"
    by (simp add: refresh_def refresh_try_def refresh_catch_def applySnapshot_def
          createFallbackSnapshot_def)
  then show ?thesis using refresh_total by blast
qed

section \<open>Idempotence of advance\<close>










end
